theory Spec2Isabelle
  imports Main "HOL-Library.Char_ord" "HOL-Library.Sublist"
begin

section \<open>Python strings\<close>

text \<open>
  A Python \<open>str\<close> is modelled as a \<open>string\<close> whose characters are the code points 0 to
  255 (ASCII and the Latin-1 supplement). The character tests below are Python's on that
  range; code points above 255 are outside the model.
\<close>

definition is_upper :: "char \<Rightarrow> bool" where
  "is_upper c = (CHR ''A'' \<le> c \<and> c \<le> CHR ''Z'')"

definition is_lower :: "char \<Rightarrow> bool" where
  "is_lower c = (CHR ''a'' \<le> c \<and> c \<le> CHR ''z'')"

definition is_digit :: "char \<Rightarrow> bool" where
  "is_digit c = (CHR ''0'' \<le> c \<and> c \<le> CHR ''9'')"

text \<open>The cased letters of the Latin-1 supplement: the capitals 0xC0..0xDE and the small
  letters 0xE0..0xFE, without the signs 0xD7 and 0xF7. The small letters 0xDF and 0xFF
  and the micro sign have no capital in the range.\<close>

definition is_upper_latin1 :: "char \<Rightarrow> bool" where
  "is_upper_latin1 c = (CHR 0xC0 \<le> c \<and> c \<le> CHR 0xDE \<and> c \<noteq> CHR 0xD7)"

definition is_lower_latin1 :: "char \<Rightarrow> bool" where
  "is_lower_latin1 c = (CHR 0xE0 \<le> c \<and> c \<le> CHR 0xFE \<and> c \<noteq> CHR 0xF7)"

text \<open>\<open>str.isspace\<close>, which is also \<open>\s\<close> and what \<open>strip\<close> removes: tab, line feed,
  vertical tab, form feed, carriage return, the four separators 0x1C..0x1F, the blank,
  the next-line control 0x85 and the no-break space 0xA0.\<close>

definition is_space :: "char \<Rightarrow> bool" where
  "is_space c = ((CHR 0x09 \<le> c \<and> c \<le> CHR 0x0D) \<or> (CHR 0x1C \<le> c \<and> c \<le> CHR 0x20)
                 \<or> c = CHR 0x85 \<or> c = CHR 0xA0)"

text \<open>The letters and numbers of the Latin-1 supplement (\<open>str.isalnum\<close>): the ordinal
  indicators 0xAA and 0xBA, the micro sign 0xB5, the superscripts 0xB2, 0xB3 and 0xB9,
  the fractions 0xBC..0xBE, and the letters 0xC0..0xFF without 0xD7 and 0xF7.\<close>

definition is_alnum_latin1 :: "char \<Rightarrow> bool" where
  "is_alnum_latin1 c =
     (c = CHR 0xAA \<or> c = CHR 0xBA \<or> c = CHR 0xB5 \<or> c = CHR 0xB2 \<or> c = CHR 0xB3 \<or> c = CHR 0xB9
      \<or> (CHR 0xBC \<le> c \<and> c \<le> CHR 0xBE)
      \<or> (CHR 0xC0 \<le> c \<and> c \<noteq> CHR 0xD7 \<and> c \<noteq> CHR 0xF7))"

text \<open>The word characters of \<open>\w\<close> and \<open>\b\<close>: letters, numbers and the underscore.\<close>

definition is_word :: "char \<Rightarrow> bool" where
  "is_word c = (is_upper c \<or> is_lower c \<or> is_digit c \<or> c = CHR ''_'' \<or> is_alnum_latin1 c)"

definition lower_chr :: "char \<Rightarrow> char" where
  "lower_chr c = (if is_upper c \<or> is_upper_latin1 c then char_of (of_char c + (32::nat)) else c)"

definition upper_chr :: "char \<Rightarrow> char" where
  "upper_chr c = (if is_lower c \<or> is_lower_latin1 c then char_of (of_char c - (32::nat)) else c)"

definition py_lower :: "string \<Rightarrow> string" where
  "py_lower s = map lower_chr s"

definition py_strip :: "string \<Rightarrow> string" where
  "py_strip s = rev (dropWhile is_space (rev (dropWhile is_space s)))"

text \<open>\<open>k in s\<close> on strings: \<open>k\<close> occurs in \<open>s\<close> as a contiguous substring.\<close>

fun py_in :: "string \<Rightarrow> string \<Rightarrow> bool" where
  "py_in k [] = (k = [])"
| "py_in k (c # cs) = (prefix k (c # cs) \<or> py_in k cs)"

section \<open>The regular expressions of \<open>re\<close>\<close>

text \<open>
  The patterns of \<open>lead_capture.py\<close> use literals, character classes, \<open>\s\<close>, \<open>\b\<close>,
  \<open>^\<close>, \<open>$\<close>, alternation, \<open>?\<close>, and the greedy repetitions \<open>+\<close> and \<open>{2,}\<close> of a
  single character class, with one capturing group. \<open>re\<close> is a backtracking matcher:
  it explores the alternatives in a fixed order (left alternative first, longest
  repetition first) and reports the first success. \<open>rmatch\<close> returns all successes in
  that order, so the head of the list is what \<open>re\<close> reports.
\<close>

datatype cls_item = Single char | Range char char | Space

datatype rx =
    Eps
  | Cls "cls_item list"
  | Seq rx rx
  | Alt rx rx
  | Opt rx
  | Rep nat "cls_item list"
  | Bol
  | Eol
  | WordB
  | Grp rx

fun in_item :: "cls_item \<Rightarrow> char \<Rightarrow> bool" where
  "in_item (Single a) c = (c = a)"
| "in_item (Range lo hi) c = (lo \<le> c \<and> c \<le> hi)"
| "in_item Space c = is_space c"

definition in_cls :: "cls_item list \<Rightarrow> char \<Rightarrow> bool" where
  "in_cls items c = list_ex (\<lambda>i. in_item i c) items"

text \<open>Under \<open>re.IGNORECASE\<close> (the flag \<open>ic\<close>) a character matches a class when it or
  its other case does.\<close>

definition cls_ok :: "bool \<Rightarrow> cls_item list \<Rightarrow> char \<Rightarrow> bool" where
  "cls_ok ic items c =
     (in_cls items c \<or> (ic \<and> (in_cls items (lower_chr c) \<or> in_cls items (upper_chr c))))"

text \<open>A matcher state: the character before the current position (\<open>None\<close> at the start
  of the string), the text still to be read, and the text of group 1 once it has closed.\<close>

type_synonym mstate = "char option \<times> string \<times> string option"

fun rep_greedy :: "bool \<Rightarrow> cls_item list \<Rightarrow> nat \<Rightarrow> char option \<Rightarrow> string \<Rightarrow> (char option \<times> string) list" where
  "rep_greedy ic cl n p [] = (if n = 0 then [(p, [])] else [])"
| "rep_greedy ic cl n p (c # cs) =
     (if cls_ok ic cl c then rep_greedy ic cl (n - 1) (Some c) cs else [])
     @ (if n = 0 then [(p, c # cs)] else [])"

definition word_opt :: "char option \<Rightarrow> bool" where
  "word_opt p = (case p of None \<Rightarrow> False | Some c \<Rightarrow> is_word c)"

definition next_chr :: "string \<Rightarrow> char option" where
  "next_chr s = (case s of [] \<Rightarrow> None | c # _ \<Rightarrow> Some c)"

fun rmatch :: "bool \<Rightarrow> rx \<Rightarrow> mstate \<Rightarrow> mstate list" where
  "rmatch ic Eps st = [st]"
| "rmatch ic (Cls cl) (p, s, g) =
     (case s of [] \<Rightarrow> [] | c # cs \<Rightarrow> if cls_ok ic cl c then [(Some c, cs, g)] else [])"
| "rmatch ic (Seq a b) st = concat (map (rmatch ic b) (rmatch ic a st))"
| "rmatch ic (Alt a b) st = rmatch ic a st @ rmatch ic b st"
| "rmatch ic (Opt a) st = rmatch ic a st @ [st]"
| "rmatch ic (Rep n cl) (p, s, g) = map (\<lambda>(p', s'). (p', s', g)) (rep_greedy ic cl n p s)"
| "rmatch ic Bol (p, s, g) = (if p = None then [(p, s, g)] else [])"
| "rmatch ic Eol (p, s, g) = (if s = [] \<or> s = [CHR 0x0A] then [(p, s, g)] else [])"
| "rmatch ic WordB (p, s, g) = (if word_opt p \<noteq> word_opt (next_chr s) then [(p, s, g)] else [])"
| "rmatch ic (Grp a) (p, s, g) =
     map (\<lambda>(p', s', g'). (p', s', Some (take (length s - length s') s))) (rmatch ic a (p, s, g))"

text \<open>\<open>re.match\<close>: the first success at the start of the string, as the pair of the whole
  match (\<open>group()\<close>) and group 1.\<close>

definition first_match :: "bool \<Rightarrow> rx \<Rightarrow> char option \<Rightarrow> string \<Rightarrow> (string \<times> string option) option" where
  "first_match ic r p s =
     (case rmatch ic r (p, s, None) of
        [] \<Rightarrow> None
      | (p', s', g) # _ \<Rightarrow> Some (take (length s - length s') s, g))"

definition re_match :: "bool \<Rightarrow> rx \<Rightarrow> string \<Rightarrow> (string \<times> string option) option" where
  "re_match ic r s = first_match ic r None s"

text \<open>\<open>re.search\<close>: the first success at the leftmost position that has one.\<close>

fun search_from :: "bool \<Rightarrow> rx \<Rightarrow> char option \<Rightarrow> string \<Rightarrow> (string \<times> string option) option" where
  "search_from ic r p [] = first_match ic r p []"
| "search_from ic r p (c # cs) =
     (case first_match ic r p (c # cs) of
        Some m \<Rightarrow> Some m
      | None \<Rightarrow> search_from ic r (Some c) cs)"

definition re_search :: "bool \<Rightarrow> rx \<Rightarrow> string \<Rightarrow> (string \<times> string option) option" where
  "re_search ic r s = search_from ic r None s"

fun seqs :: "rx list \<Rightarrow> rx" where
  "seqs [] = Eps"
| "seqs [r] = r"
| "seqs (r # rs) = Seq r (seqs rs)"

fun alts :: "rx list \<Rightarrow> rx" where
  "alts [] = Eps"
| "alts [r] = r"
| "alts (r # rs) = Alt r (alts rs)"

definition lit :: "string \<Rightarrow> rx" where
  "lit s = seqs (map (\<lambda>c. Cls [Single c]) s)"

section \<open>\<open>lead_capture.py\<close>\<close>

text \<open>The dictionaries \<open>lead_info\<close> and \<open>extracted\<close> are only ever read and written at the
  keys \<open>name\<close>, \<open>email\<close> and \<open>platform\<close>: a record of three optional strings, \<open>None\<close> for
  a key that is not in the dictionary.\<close>

record lead =
  name_f :: "string option"
  email_f :: "string option"
  platform_f :: "string option"

definition empty_lead :: lead where
  "empty_lead = \<lparr>name_f = None, email_f = None, platform_f = None\<rparr>"

text \<open>\<open>^[a-zA-Z0-9._%+-]+@[a-zA-Z0-9.-]+\.[a-zA-Z]{2,}$\<close>\<close>

definition validate_pattern :: rx where
  "validate_pattern = seqs
     [Bol,
      Rep 1 [Range CHR ''a'' CHR ''z'', Range CHR ''A'' CHR ''Z'', Range CHR ''0'' CHR ''9'',
             Single CHR ''.'', Single CHR ''_'', Single CHR ''%'', Single CHR ''+'', Single CHR ''-''],
      Cls [Single CHR ''@''],
      Rep 1 [Range CHR ''a'' CHR ''z'', Range CHR ''A'' CHR ''Z'', Range CHR ''0'' CHR ''9'',
             Single CHR ''.'', Single CHR ''-''],
      Cls [Single CHR ''.''],
      Rep 2 [Range CHR ''a'' CHR ''z'', Range CHR ''A'' CHR ''Z''],
      Eol]"

definition validate_email :: "string \<Rightarrow> bool" where
  "validate_email email = (re_match False validate_pattern email \<noteq> None)"

text \<open>\<open>\b[A-Za-z0-9._%+-]+@[A-Za-z0-9.-]+\.[A-Z|a-z]{2,}\b\<close>\<close>

definition email_pattern :: rx where
  "email_pattern = seqs
     [WordB,
      Rep 1 [Range CHR ''A'' CHR ''Z'', Range CHR ''a'' CHR ''z'', Range CHR ''0'' CHR ''9'',
             Single CHR ''.'', Single CHR ''_'', Single CHR ''%'', Single CHR ''+'', Single CHR ''-''],
      Cls [Single CHR ''@''],
      Rep 1 [Range CHR ''A'' CHR ''Z'', Range CHR ''a'' CHR ''z'', Range CHR ''0'' CHR ''9'',
             Single CHR ''.'', Single CHR ''-''],
      Cls [Single CHR ''.''],
      Rep 2 [Range CHR ''A'' CHR ''Z'', Single CHR ''|'', Range CHR ''a'' CHR ''z''],
      WordB]"

text \<open>The dictionary \<open>platforms\<close>, in insertion order (the order \<open>items()\<close> iterates in).\<close>

definition platforms :: "(string \<times> string) list" where
  "platforms =
     [(''youtube'', ''YouTube''),
      (''instagram'', ''Instagram''),
      (''tiktok'', ''TikTok''),
      (''facebook'', ''Facebook''),
      (''twitter'', ''Twitter''),
      (''x'', ''Twitter''),
      (''linkedin'', ''LinkedIn''),
      (''twitch'', ''Twitch''),
      (''vimeo'', ''Vimeo''),
      (''snapchat'', ''Snapchat'')]"

text \<open>The loop over \<open>platforms.items()\<close>, with its \<open>break\<close>.\<close>

fun platform_loop :: "(string \<times> string) list \<Rightarrow> string \<Rightarrow> lead \<Rightarrow> lead" where
  "platform_loop [] message_lower extracted = extracted"
| "platform_loop ((platform_key, platform_name) # rest) message_lower extracted =
     (if py_in platform_key message_lower
      then extracted\<lparr>platform_f := Some platform_name\<rparr>
      else platform_loop rest message_lower extracted)"

text \<open>\<open>[A-Z][a-z]+(?:\s+[A-Z][a-z]+)?\<close>, the body of group 1 in the first three name
  patterns.\<close>

definition cap_word :: "rx list" where
  "cap_word = [Cls [Range CHR ''A'' CHR ''Z''], Rep 1 [Range CHR ''a'' CHR ''z'']]"

definition name_body :: rx where
  "name_body = seqs (cap_word @ [Opt (seqs (Rep 1 [Space] # cap_word))])"

definition name_patterns :: "rx list" where
  "name_patterns =
     [seqs [alts [seqs [lit ''i'', Opt (lit [CHR 0x27]), lit ''m''],
                  lit ''i am'',
                  lit ''my name is'',
                  lit ''this is'',
                  lit ''call me'',
                  seqs [lit ''it'', Opt (lit [CHR 0x27]), lit ''s'']],
            Rep 1 [Space],
            Grp name_body],
      seqs [lit ''name'', Rep 1 [Single CHR '':'', Space], Grp name_body],
      seqs [Bol, Grp name_body, Alt (Cls [Space]) Eol],
      Grp (seqs (cap_word @ Rep 1 [Space] # cap_word))]"

text \<open>The loop over \<open>name_patterns\<close>: a pattern that matches but whose candidate is
  refused does not stop the loop.\<close>

fun name_loop :: "rx list \<Rightarrow> string \<Rightarrow> lead \<Rightarrow> lead" where
  "name_loop [] message extracted = extracted"
| "name_loop (pattern # rest) message extracted =
     (case re_search True pattern message of
        None \<Rightarrow> name_loop rest message extracted
      | Some (whole, g1) \<Rightarrow>
          (let potential_name = py_strip (case g1 of None \<Rightarrow> [] | Some t \<Rightarrow> t)
           in if length potential_name < 50 \<and> CHR ''@'' \<notin> set potential_name
              then extracted\<lparr>name_f := Some potential_name\<rparr>
              else name_loop rest message extracted))"

definition extract_info_from_message :: "string \<Rightarrow> lead" where
  "extract_info_from_message message =
     (let extracted = empty_lead;
          extracted = (case re_search False email_pattern message of
                         None \<Rightarrow> extracted
                       | Some (whole, g1) \<Rightarrow> extracted\<lparr>email_f := Some whole\<rparr>);
          message_lower = py_lower message;
          extracted = platform_loop platforms message_lower extracted
      in name_loop name_patterns message extracted)"

section \<open>\<open>intent_detector.py\<close>\<close>

datatype Intent = GREETING | PRODUCT_INQUIRY | HIGH_INTENT_LEAD

fun intent_value :: "Intent \<Rightarrow> string" where
  "intent_value GREETING = ''greeting''"
| "intent_value PRODUCT_INQUIRY = ''product_inquiry''"
| "intent_value HIGH_INTENT_LEAD = ''high_intent_lead''"

datatype message = HumanMessage string | AIMessage string

fun content :: "message \<Rightarrow> string" where
  "content (HumanMessage c) = c"
| "content (AIMessage c) = c"

datatype error = IndexError | KeyError | ValueError | AdapterError

text \<open>
  The external collaborators: the language model behind \<open>IntentDetector\<close> (from the
  history text and the message to \<open>response.content\<close>), the retrieval pipeline, and the
  step of the greeting and inquiry branches that builds a \<open>ChatPromptTemplate\<close> from the
  system prompt, formats it with the messages and invokes the language model (from the
  system prompt and the messages to \<open>response.content\<close>).

  That last step can raise. The system prompt is parsed as a template: in
  \<open>_handle_inquiry\<close> the retrieved context is spliced into the prompt before the
  template is built, so a context with braces names a variable that \<open>format_messages\<close>
  is not given (\<open>KeyError\<close>) or is no template at all (\<open>ValueError\<close>); and the call of
  the model can fail. The step is therefore a function into \<open>error + string\<close>, and the
  exception it raises leaves the turn without a result.
\<close>

record adapters =
  intent_llm :: "string \<Rightarrow> string \<Rightarrow> string"
  chat_llm :: "string \<Rightarrow> message list \<Rightarrow> error + string"
  rag_get_context :: "string \<Rightarrow> string"

text \<open>What a turn does besides computing its result, in the order it does it.\<close>

datatype effect =
    IntentLLMCall string string
  | ChatLLMCall string "message list"
  | RagCall string
  | LeadCaptured string string string

definition intent_map :: "(string \<times> Intent) list" where
  "intent_map =
     [(''greeting'', GREETING),
      (''product_inquiry'', PRODUCT_INQUIRY),
      (''high_intent_lead'', HIGH_INTENT_LEAD)]"

definition detect :: "adapters \<Rightarrow> string \<Rightarrow> string \<Rightarrow> Intent \<times> effect list" where
  "detect ad message conversation_history =
     (let history = (if conversation_history = [] then ''No previous conversation.''
                     else conversation_history);
          response = intent_llm ad history message;
          intent_str = py_lower (py_strip response)
      in (case map_of intent_map intent_str of
            Some i \<Rightarrow> i
          | None \<Rightarrow> PRODUCT_INQUIRY,
          [IntentLLMCall history message]))"

section \<open>\<open>agent.py\<close>\<close>

record agent_state =
  messages :: "message list"
  intent :: string
  lead_info :: lead
  conversation_turn :: int

text \<open>Truthiness of \<open>"k" in lead_info and lead_info.get("k")\<close>: the key is there and
  its value is not the empty string.\<close>

definition truthy :: "string option \<Rightarrow> bool" where
  "truthy v = (case v of None \<Rightarrow> False | Some t \<Rightarrow> t \<noteq> [])"

text \<open>\<open>bool(lead_info)\<close>: the dictionary has a key.\<close>

definition lead_bool :: "lead \<Rightarrow> bool" where
  "lead_bool l = (name_f l \<noteq> None \<or> email_f l \<noteq> None \<or> platform_f l \<noteq> None)"

definition is_collecting_lead :: "lead \<Rightarrow> bool" where
  "is_collecting_lead l =
     (lead_bool l \<and> \<not> (truthy (name_f l) \<and>
                        truthy (email_f l) \<and> validate_email (case email_f l of None \<Rightarrow> [] | Some e \<Rightarrow> e) \<and>
                        truthy (platform_f l)))"

fun history_line :: "message \<Rightarrow> string" where
  "history_line (HumanMessage c) = ''User: '' @ c"
| "history_line (AIMessage c) = ''Agent: '' @ c"

fun join_lines :: "string list \<Rightarrow> string" where
  "join_lines [] = []"
| "join_lines [l] = l"
| "join_lines (l # ls) = l @ [CHR 0x0A] @ join_lines ls"

definition format_conversation_history :: "message list \<Rightarrow> string" where
  "format_conversation_history msgs =
     join_lines (map history_line (drop (length msgs - 6) msgs))"

definition process_message :: "adapters \<Rightarrow> agent_state \<Rightarrow> error + agent_state \<times> effect list" where
  "process_message ad state =
     (if messages state = [] then Inl IndexError
      else
        let history = format_conversation_history (butlast (messages state));
            user_message = content (last (messages state))
        in if is_collecting_lead (lead_info state)
           then Inr (state\<lparr>intent := ''high_intent_lead'',
                           conversation_turn := conversation_turn state + 1\<rparr>, [])
           else (case detect ad user_message history of
                   (i, effs) \<Rightarrow>
                     Inr (state\<lparr>intent := intent_value i,
                                conversation_turn := conversation_turn state + 1\<rparr>, effs)))"

definition route_intent :: "agent_state \<Rightarrow> string" where
  "route_intent state = intent state"

definition greeting_prompt :: string where
  "greeting_prompt =
     ''You are a friendly AI assistant for AutoStream, an automated video editing platform for content creators. ''
     @ [CHR 0x0A] @
     ''Respond warmly to greetings and offer to help with information about AutoStream's pricing, features, or plans.''"

definition inquiry_prompt :: "string \<Rightarrow> string" where
  "inquiry_prompt context =
     ''You are a helpful AI assistant for AutoStream, an automated video editing platform for content creators.''
     @ [CHR 0x0A, CHR 0x0A] @
     ''Use the following knowledge base information to answer user questions accurately:''
     @ [CHR 0x0A, CHR 0x0A] @ context @ [CHR 0x0A, CHR 0x0A] @
     ''Answer questions clearly and concisely. If asked about pricing, provide specific details about both plans. If asked about features, be specific about what each plan includes.''"

definition handle_greeting :: "adapters \<Rightarrow> agent_state \<Rightarrow> error + agent_state \<times> effect list" where
  "handle_greeting ad state =
     (case chat_llm ad greeting_prompt (messages state) of
        Inl e \<Rightarrow> Inl e
      | Inr response \<Rightarrow>
          Inr (state\<lparr>messages := messages state @ [AIMessage response]\<rparr>,
               [ChatLLMCall greeting_prompt (messages state)]))"

definition handle_inquiry :: "adapters \<Rightarrow> agent_state \<Rightarrow> error + agent_state \<times> effect list" where
  "handle_inquiry ad state =
     (if messages state = [] then Inl IndexError
      else
        let user_query = content (last (messages state));
            context = rag_get_context ad user_query;
            system_prompt = inquiry_prompt context
        in case chat_llm ad system_prompt (messages state) of
             Inl e \<Rightarrow> Inl e
           | Inr response \<Rightarrow>
               Inr (state\<lparr>messages := messages state @ [AIMessage response]\<rparr>,
                    [RagCall user_query, ChatLLMCall system_prompt (messages state)]))"

text \<open>The merge of \<open>_handle_lead\<close>: a key of \<open>extracted\<close> is stored only when
  \<open>lead_info\<close> does not have that key.\<close>

definition merge_extracted :: "lead \<Rightarrow> lead \<Rightarrow> lead" where
  "merge_extracted extracted l =
     (let l = (if name_f extracted \<noteq> None \<and> name_f l = None
               then l\<lparr>name_f := name_f extracted\<rparr> else l);
          l = (if email_f extracted \<noteq> None \<and> email_f l = None
               then l\<lparr>email_f := email_f extracted\<rparr> else l);
          l = (if platform_f extracted \<noteq> None \<and> platform_f l = None
               then l\<lparr>platform_f := platform_f extracted\<rparr> else l)
      in l)"

definition missing_fields :: "lead \<Rightarrow> string list" where
  "missing_fields l =
     (if name_f l = None then [''name''] else [])
     @ (if email_f l = None then [''email''] else [])
     @ (if platform_f l = None then [''platform (e.g., YouTube, Instagram)''] else [])"

definition lead_response_text :: "string list \<Rightarrow> string" where
  "lead_response_text missing =
     (if missing \<noteq> [] then
        (if length missing = 3 then
           ''Great! I'd love to help you get started with AutoStream. To proceed, I'll need a few details:''
           @ [CHR 0x0A, CHR 0x0A] @ ''1. What's your name?'' @ [CHR 0x0A]
           @ ''2. What's your email address?'' @ [CHR 0x0A]
           @ ''3. Which platform do you create content on? (YouTube, Instagram, TikTok, etc.)''
         else if length missing = 2 then
           (if ''name'' \<in> set missing \<and> ''email'' \<in> set missing then
              ''I'd like to collect your name and email address to proceed.''
            else if ''name'' \<in> set missing \<and> ''platform'' \<in> set missing then
              ''I'd like to know your name and which platform you create content on.''
            else
              ''I'd like to collect your email and which platform you create content on.'')
         else
           (if ''name'' \<in> set missing then ''What's your name?''
            else if ''email'' \<in> set missing then ''What's your email address?''
            else ''Which platform do you create content on? (YouTube, Instagram, TikTok, etc.)''))
      else ''Thank you! I have all the information I need.'')"

definition handle_lead :: "agent_state \<Rightarrow> error + agent_state \<times> effect list" where
  "handle_lead state =
     (if messages state = [] then Inl IndexError
      else
        let user_message = content (last (messages state));
            extracted = extract_info_from_message user_message;
            l = merge_extracted extracted (lead_info state);
            missing = missing_fields l;
            response_text = lead_response_text missing
        in Inr (state\<lparr>lead_info := l,
                       messages := messages state @ [AIMessage response_text]\<rparr>, []))"

definition check_lead_info_complete :: "agent_state \<Rightarrow> string" where
  "check_lead_info_complete state =
     (let l = lead_info state;
          has_name = truthy (name_f l);
          has_email = (truthy (email_f l) \<and> validate_email (case email_f l of None \<Rightarrow> [] | Some e \<Rightarrow> e));
          has_platform = truthy (platform_f l)
      in if has_name \<and> has_email \<and> has_platform then ''complete'' else ''incomplete'')"

definition get_or_empty :: "string option \<Rightarrow> string" where
  "get_or_empty v = (case v of None \<Rightarrow> [] | Some t \<Rightarrow> t)"

definition confirmation_text :: "string \<Rightarrow> string \<Rightarrow> string \<Rightarrow> string" where
  "confirmation_text name email platform =
     ''Perfect! I've captured your information:'' @ [CHR 0x0A]
     @ ''- Name: '' @ name @ [CHR 0x0A]
     @ ''- Email: '' @ email @ [CHR 0x0A]
     @ ''- Platform: '' @ platform @ [CHR 0x0A, CHR 0x0A]
     @ ''Our team will reach out to you shortly to help you get started with AutoStream!''"

definition collect_lead_info :: "agent_state \<Rightarrow> error + agent_state \<times> effect list" where
  "collect_lead_info state =
     (let l = lead_info state;
          name = get_or_empty (name_f l);
          email = get_or_empty (email_f l);
          platform = get_or_empty (platform_f l)
      in if \<not> validate_email email
         then Inr (state\<lparr>messages := messages state @
                     [AIMessage ''I need a valid email address. Could you please provide your email?'']\<rparr>, [])
         else Inr (state\<lparr>messages := messages state @
                     [AIMessage (confirmation_text name email platform)]\<rparr>,
                   [LeadCaptured name email platform]))"

text \<open>The compiled graph: \<open>process_message\<close>, then the branch \<open>_route_intent\<close> names, and
  after \<open>handle_lead\<close> the node \<open>collect_lead_info\<close> when \<open>_check_lead_info_complete\<close>
  says \<open>complete\<close>. A route that is not a key of the edge table is an error.\<close>

definition then_node ::
  "error + agent_state \<times> effect list \<Rightarrow> (agent_state \<Rightarrow> error + agent_state \<times> effect list)
   \<Rightarrow> error + agent_state \<times> effect list" where
  "then_node r node =
     (case r of
        Inl e \<Rightarrow> Inl e
      | Inr (s, effs) \<Rightarrow>
          (case node s of Inl e \<Rightarrow> Inl e | Inr (s', effs') \<Rightarrow> Inr (s', effs @ effs')))"

definition after_handle_lead :: "agent_state \<Rightarrow> error + agent_state \<times> effect list" where
  "after_handle_lead state =
     (if check_lead_info_complete state = ''complete'' then collect_lead_info state
      else Inr (state, []))"

definition route_node :: "adapters \<Rightarrow> agent_state \<Rightarrow> error + agent_state \<times> effect list" where
  "route_node ad state =
     (let r = route_intent state
      in if r = ''greeting'' then handle_greeting ad state
         else if r = ''product_inquiry'' then handle_inquiry ad state
         else if r = ''high_intent_lead'' then then_node (handle_lead state) after_handle_lead
         else Inl KeyError)"

definition invoke :: "adapters \<Rightarrow> agent_state \<Rightarrow> error + agent_state \<times> effect list" where
  "invoke ad state = then_node (process_message ad state) (route_node ad)"

fun last_ai_message :: "message list \<Rightarrow> string option" where
  "last_ai_message [] = None"
| "last_ai_message (HumanMessage c # rest) = last_ai_message rest"
| "last_ai_message (AIMessage c # rest) = Some c"

definition initial_state :: agent_state where
  "initial_state = \<lparr>messages = [], intent = [], lead_info = empty_lead, conversation_turn = 0\<rparr>"

definition chat ::
  "adapters \<Rightarrow> string \<Rightarrow> agent_state option \<Rightarrow> error + (string \<times> agent_state) \<times> effect list" where
  "chat ad user_message state =
     (let state = (case state of None \<Rightarrow> initial_state | Some s \<Rightarrow> s);
          state = state\<lparr>messages := messages state @ [HumanMessage user_message]\<rparr>
      in case invoke ad state of
           Inl e \<Rightarrow> Inl e
         | Inr (final_state, effs) \<Rightarrow>
             (let found = last_ai_message (rev (messages final_state));
                  response = (case found of
                                None \<Rightarrow> ''I'm here to help!''
                              | Some t \<Rightarrow> if t = [] then ''I'm here to help!'' else t)
              in Inr ((response, final_state), effs)))"

text \<open>A conversation: the turns in order, each with the collaborators as they answer on
  that turn, the state of one turn handed to the next, the effects concatenated.\<close>

fun run_turns ::
  "agent_state option \<Rightarrow> (adapters \<times> string) list \<Rightarrow> error + (agent_state option \<times> effect list)" where
  "run_turns st [] = Inr (st, [])"
| "run_turns st ((ad, user_message) # rest) =
     (case chat ad user_message st of
        Inl e \<Rightarrow> Inl e
      | Inr ((response, st'), effs) \<Rightarrow>
          (case run_turns (Some st') rest of
             Inl e \<Rightarrow> Inl e
           | Inr (final, effs') \<Rightarrow> Inr (final, effs @ effs')))"

section \<open>Notions of the specification\<close>

text \<open>A field of the lead is known when it is there and not the empty string; absence
  and the empty string both mean "not yet known".\<close>

definition known :: "string option \<Rightarrow> bool" where
  "known v = (case v of None \<Rightarrow> False | Some t \<Rightarrow> t \<noteq> [])"

definition valid_email_known :: "lead \<Rightarrow> bool" where
  "valid_email_known l = (case email_f l of None \<Rightarrow> False | Some e \<Rightarrow> validate_email e)"

text \<open>Slot-filling mode in the words of the specification: the lead is non-empty and
  the name, a valid email or the platform is still missing.\<close>

definition inSlotFillingMode :: "lead \<Rightarrow> bool" where
  "inSlotFillingMode l =
     (l \<noteq> empty_lead \<and> (\<not> known (name_f l) \<or> \<not> valid_email_known l \<or> \<not> known (platform_f l)))"


fun is_classifier_call :: "effect \<Rightarrow> bool" where
  "is_classifier_call (IntentLLMCall h m) = True"
| "is_classifier_call e = False"

fun is_capture :: "effect \<Rightarrow> bool" where
  "is_capture (LeadCaptured n e p) = True"
| "is_capture e = False"

text \<open>Collaborators that give the same answers whatever they are asked and never raise,
  for the concrete conversations below.\<close>

definition fixed_adapters :: "string \<Rightarrow> string \<Rightarrow> string \<Rightarrow> adapters" where
  "fixed_adapters classifier_says llm_says rag_says =
     \<lparr>intent_llm = (\<lambda>history message. classifier_says),
      chat_llm = (\<lambda>prompt msgs. Inr llm_says),
      rag_get_context = (\<lambda>query. rag_says)\<rparr>"

definition lead_of :: "string option \<Rightarrow> string option \<Rightarrow> string option \<Rightarrow> agent_state" where
  "lead_of n e p = initial_state\<lparr>lead_info := \<lparr>name_f = n, email_f = e, platform_f = p\<rparr>\<rparr>"

text \<open>The state a turn of the Lead Branch leaves when the lead is not complete: the user
  message and the prompt appended, the extraction merged, the turn counted.\<close>

definition lead_turn_state :: "agent_state \<Rightarrow> string \<Rightarrow> agent_state" where
  "lead_turn_state s m =
     s\<lparr>messages := messages s @ [HumanMessage m,
          AIMessage (lead_response_text (missing_fields (merge_extracted (extract_info_from_message m) (lead_info s))))],
       intent := ''high_intent_lead'',
       lead_info := merge_extracted (extract_info_from_message m) (lead_info s),
       conversation_turn := conversation_turn s + 1\<rparr>"

section \<open>What a pattern can and must read\<close>

text \<open>\<open>rx_chars ic r c\<close>: some character class of the pattern \<open>r\<close> admits \<open>c\<close>, so only such
  characters are ever read by a match of \<open>r\<close>.\<close>

fun rx_chars :: "bool \<Rightarrow> rx \<Rightarrow> char \<Rightarrow> bool" where
  "rx_chars ic Eps c = False"
| "rx_chars ic (Cls cl) c = cls_ok ic cl c"
| "rx_chars ic (Seq a b) c = (rx_chars ic a c \<or> rx_chars ic b c)"
| "rx_chars ic (Alt a b) c = (rx_chars ic a c \<or> rx_chars ic b c)"
| "rx_chars ic (Opt a) c = rx_chars ic a c"
| "rx_chars ic (Rep n cl) c = cls_ok ic cl c"
| "rx_chars ic Bol c = False"
| "rx_chars ic Eol c = False"
| "rx_chars ic WordB c = False"
| "rx_chars ic (Grp a) c = rx_chars ic a c"

text \<open>\<open>rx_needs ic Q r\<close>: on every path through \<open>r\<close> there is a class, read at least once,
  all of whose characters satisfy \<open>Q\<close>, so every match of \<open>r\<close> reads a character that
  satisfies \<open>Q\<close>.\<close>

fun rx_needs :: "bool \<Rightarrow> (char \<Rightarrow> bool) \<Rightarrow> rx \<Rightarrow> bool" where
  "rx_needs ic Q Eps = False"
| "rx_needs ic Q (Cls cl) = (\<forall>c. cls_ok ic cl c \<longrightarrow> Q c)"
| "rx_needs ic Q (Seq a b) = (rx_needs ic Q a \<or> rx_needs ic Q b)"
| "rx_needs ic Q (Alt a b) = (rx_needs ic Q a \<and> rx_needs ic Q b)"
| "rx_needs ic Q (Opt a) = False"
| "rx_needs ic Q (Rep n cl) = (0 < n \<and> (\<forall>c. cls_ok ic cl c \<longrightarrow> Q c))"
| "rx_needs ic Q Bol = False"
| "rx_needs ic Q Eol = False"
| "rx_needs ic Q WordB = False"
| "rx_needs ic Q (Grp a) = rx_needs ic Q a"



text \<open>The separators the name patterns ask for between or after words: white space or
  a colon.\<close>

definition sep_chr :: "char \<Rightarrow> bool" where
  "sep_chr c = (is_space c \<or> c = CHR '':'')"

section \<open>Characters by their codes\<close>

lemma char_eq_code: "(c = d) = ((of_char c :: nat) = of_char d)"
  by (rule of_char_eq_iff [symmetric])

lemma code_bound: "(of_char c :: nat) < 256"
  by simp

lemma lower_chr_code:
  "(of_char (lower_chr c) :: nat) =
     (if (65 \<le> (of_char c :: nat) \<and> (of_char c :: nat) \<le> 90)
         \<or> (192 \<le> (of_char c :: nat) \<and> (of_char c :: nat) \<le> 222 \<and> (of_char c :: nat) \<noteq> 215)
      then of_char c + 32 else of_char c)"
  using code_bound [of c]
  by (auto simp: lower_chr_def is_upper_def is_upper_latin1_def less_eq_char_def char_eq_code simp del: of_char_eq_iff)

lemma upper_chr_code:
  "(of_char (upper_chr c) :: nat) =
     (if (97 \<le> (of_char c :: nat) \<and> (of_char c :: nat) \<le> 122)
         \<or> (224 \<le> (of_char c :: nat) \<and> (of_char c :: nat) \<le> 254 \<and> (of_char c :: nat) \<noteq> 247)
      then of_char c - 32 else of_char c)"
  using code_bound [of c]
  by (auto simp: upper_chr_def is_lower_def is_lower_latin1_def less_eq_char_def char_eq_code simp del: of_char_eq_iff)

lemma is_space_code:
  "is_space c = ((9 \<le> (of_char c :: nat) \<and> (of_char c :: nat) \<le> 13)
               \<or> (28 \<le> (of_char c :: nat) \<and> (of_char c :: nat) \<le> 32)
               \<or> (of_char c :: nat) = 133 \<or> (of_char c :: nat) = 160)"
  by (simp add: is_space_def less_eq_char_def char_eq_code del: of_char_eq_iff)

lemma lower_chr_idem: "lower_chr (lower_chr c) = lower_chr c"
  by (simp add: char_eq_code lower_chr_code del: of_char_eq_iff)

lemma is_space_lower: "is_space (lower_chr c) = is_space c"
  by (auto simp: is_space_code lower_chr_code)

lemma is_space_upper: "is_space (upper_chr c) = is_space c"
  by (auto simp: is_space_code upper_chr_code)

lemma colon_lower: "(lower_chr c = CHR '':'') = (c = CHR '':'')"
  by (auto simp: char_eq_code lower_chr_code simp del: of_char_eq_iff)

lemma colon_upper: "(upper_chr c = CHR '':'') = (c = CHR '':'')"
  by (auto simp: char_eq_code upper_chr_code simp del: of_char_eq_iff)

section \<open>The nodes of the graph and a whole turn\<close>

lemma validate_email_Nil: "\<not> validate_email []"
  by (simp add: validate_email_def re_match_def first_match_def validate_pattern_def)

lemma merge_name: "name_f (merge_extracted ex l) = (case name_f l of None \<Rightarrow> name_f ex | Some v \<Rightarrow> Some v)"
  by (simp add: merge_extracted_def Let_def split: option.splits)
lemma merge_email: "email_f (merge_extracted ex l) = (case email_f l of None \<Rightarrow> email_f ex | Some v \<Rightarrow> Some v)"
  by (simp add: merge_extracted_def Let_def split: option.splits)
lemma merge_platform: "platform_f (merge_extracted ex l) = (case platform_f l of None \<Rightarrow> platform_f ex | Some v \<Rightarrow> Some v)"
  by (simp add: merge_extracted_def Let_def split: option.splits)

lemma process_message_collecting:
  "messages s \<noteq> [] \<Longrightarrow> is_collecting_lead (lead_info s) \<Longrightarrow>
   process_message ad s = Inr (s\<lparr>intent := ''high_intent_lead'', conversation_turn := conversation_turn s + 1\<rparr>, [])"
  by (simp add: process_message_def Let_def)

lemma lead_branch:
  "messages s \<noteq> [] \<Longrightarrow>
   then_node (handle_lead s) after_handle_lead =
     (let l = merge_extracted (extract_info_from_message (content (last (messages s)))) (lead_info s);
          s1 = s\<lparr>lead_info := l, messages := messages s @ [AIMessage (lead_response_text (missing_fields l))]\<rparr>
      in if truthy (name_f l) \<and> truthy (email_f l) \<and> validate_email (get_or_empty (email_f l)) \<and> truthy (platform_f l)
         then Inr (s1\<lparr>messages := messages s1 @
                     [AIMessage (confirmation_text (get_or_empty (name_f l)) (get_or_empty (email_f l)) (get_or_empty (platform_f l)))]\<rparr>,
                   [LeadCaptured (get_or_empty (name_f l)) (get_or_empty (email_f l)) (get_or_empty (platform_f l))])
         else Inr (s1, []))"
  by (simp add: then_node_def handle_lead_def after_handle_lead_def check_lead_info_complete_def
      collect_lead_info_def Let_def get_or_empty_def)


lemma then_node_Inr:
  "then_node (Inr (s, effs)) node =
     (case node s of Inl e \<Rightarrow> Inl e | Inr (s', effs') \<Rightarrow> Inr (s', effs @ effs'))"
  by (simp add: then_node_def)

lemma route_node_lead:
  "intent s = ''high_intent_lead'' \<Longrightarrow>
   route_node ad s = then_node (handle_lead s) after_handle_lead"
  by (simp add: route_node_def route_intent_def)

lemma lead_response_text_nonempty: "lead_response_text ms \<noteq> []"
  by (simp add: lead_response_text_def)

lemma confirmation_text_nonempty: "confirmation_text n e p \<noteq> []"
  by (simp add: confirmation_text_def)

lemma chat_collecting:
  assumes "is_collecting_lead (lead_info s)"
  shows "chat ad m (Some s) =
     (let l = merge_extracted (extract_info_from_message m) (lead_info s)
      in if truthy (name_f l) \<and> truthy (email_f l) \<and> validate_email (get_or_empty (email_f l)) \<and> truthy (platform_f l)
         then Inr ((confirmation_text (get_or_empty (name_f l)) (get_or_empty (email_f l)) (get_or_empty (platform_f l)),
                    (lead_turn_state s m)\<lparr>messages := messages (lead_turn_state s m) @
                       [AIMessage (confirmation_text (get_or_empty (name_f l)) (get_or_empty (email_f l)) (get_or_empty (platform_f l)))]\<rparr>),
                   [LeadCaptured (get_or_empty (name_f l)) (get_or_empty (email_f l)) (get_or_empty (platform_f l))])
         else Inr ((lead_response_text (missing_fields l), lead_turn_state s m), []))"
  using assms
  by (simp add: chat_def invoke_def process_message_collecting then_node_Inr route_node_lead
      lead_branch Let_def lead_turn_state_def lead_response_text_nonempty confirmation_text_nonempty)


lemma lead_eq_empty: "(l = empty_lead) = (name_f l = None \<and> email_f l = None \<and> platform_f l = None)"
  by (cases l) (simp add: empty_lead_def)

lemma slot_filling_is_collecting: "inSlotFillingMode l \<Longrightarrow> is_collecting_lead l"
  by (auto simp: inSlotFillingMode_def is_collecting_lead_def lead_bool_def lead_eq_empty
      known_def truthy_def valid_email_known_def split: option.splits)

lemma chat_lead_info:
  assumes "chat ad m (Some s) = Inr ((r, s'), effs)"
  shows "lead_info s' = lead_info s \<or>
         lead_info s' = merge_extracted (extract_info_from_message m) (lead_info s)"
proof (cases "is_collecting_lead (lead_info s)")
  case True
  with assms show ?thesis
    by (auto simp: chat_collecting Let_def lead_turn_state_def split: if_splits)
next
  case False
  obtain i effs0 where d: "detect ad m (format_conversation_history (messages s)) = (i, effs0)"
    by (cases "detect ad m (format_conversation_history (messages s))")
  show ?thesis
  proof (cases i)
    case GREETING
    with False d assms show ?thesis
      by (auto simp: chat_def invoke_def process_message_def then_node_Inr route_node_def
          route_intent_def handle_greeting_def Let_def split: sum.splits)
  next
    case PRODUCT_INQUIRY
    with False d assms show ?thesis
      by (auto simp: chat_def invoke_def process_message_def then_node_Inr route_node_def
          route_intent_def handle_inquiry_def Let_def split: sum.splits)
  next
    case HIGH_INTENT_LEAD
    with False d assms show ?thesis
      by (auto simp: chat_def invoke_def process_message_def then_node_Inr route_node_def
          route_intent_def lead_branch Let_def split: if_splits)
  qed
qed

lemma chat_returns:
  assumes "\<forall>p ms. \<exists>t. chat_llm ad p ms = Inr t"
  shows "\<exists>r s' effs. chat ad m (Some s) = Inr ((r, s'), effs)"
proof (cases "is_collecting_lead (lead_info s)")
  case True
  then show ?thesis
    by (simp add: chat_collecting Let_def)
next
  case False
  obtain i effs0 where d: "detect ad m (format_conversation_history (messages s)) = (i, effs0)"
    by (cases "detect ad m (format_conversation_history (messages s))")
  show ?thesis
  proof (cases i)
    case GREETING
    from assms obtain t where
      "chat_llm ad greeting_prompt (messages s @ [HumanMessage m]) = Inr t" by blast
    with GREETING False d show ?thesis
      by (simp add: chat_def invoke_def process_message_def then_node_Inr route_node_def
          route_intent_def handle_greeting_def Let_def)
  next
    case PRODUCT_INQUIRY
    from assms obtain t where
      "chat_llm ad (inquiry_prompt (rag_get_context ad m)) (messages s @ [HumanMessage m]) = Inr t"
      by blast
    with PRODUCT_INQUIRY False d show ?thesis
      by (simp add: chat_def invoke_def process_message_def then_node_Inr route_node_def
          route_intent_def handle_inquiry_def Let_def)
  next
    case HIGH_INTENT_LEAD
    with False d show ?thesis
      by (simp add: chat_def invoke_def process_message_def then_node_Inr route_node_def
          route_intent_def lead_branch Let_def)
  qed
qed

lemma merge_keeps:
  "name_f l = Some v \<Longrightarrow> name_f (merge_extracted ex l) = Some v"
  "email_f l = Some v \<Longrightarrow> email_f (merge_extracted ex l) = Some v"
  "platform_f l = Some v \<Longrightarrow> platform_f (merge_extracted ex l) = Some v"
  by (simp_all add: merge_name merge_email merge_platform)

lemma run_turns_Cons:
  assumes "run_turns (Some s) ((ad, m) # turns) = Inr (fin, effs)"
  shows "\<exists>r s' effs1 effs2. chat ad m (Some s) = Inr ((r, s'), effs1) \<and>
           run_turns (Some s') turns = Inr (fin, effs2) \<and> effs = effs1 @ effs2"
  using assms by (auto split: sum.splits)

lemma run_turns_keeps:
  assumes "run_turns (Some s) turns = Inr (fin, effs)"
  shows "\<exists>final. fin = Some final \<and>
     (\<forall>v. name_f (lead_info s) = Some v \<longrightarrow> name_f (lead_info final) = Some v) \<and>
     (\<forall>v. email_f (lead_info s) = Some v \<longrightarrow> email_f (lead_info final) = Some v) \<and>
     (\<forall>v. platform_f (lead_info s) = Some v \<longrightarrow> platform_f (lead_info final) = Some v)"
  using assms
proof (induction turns arbitrary: s effs)
  case Nil
  then show ?case by auto
next
  case (Cons t turns)
  obtain ad m where t: "t = (ad, m)" by (cases t)
  from run_turns_Cons [OF Cons.prems [unfolded t]] obtain r s' effs1 effs2 where
    c: "chat ad m (Some s) = Inr ((r, s'), effs1)"
    and rest: "run_turns (Some s') turns = Inr (fin, effs2)"
    by blast
  note l = chat_lead_info [OF c]
  from Cons.IH [OF rest] obtain final where
    f: "fin = Some final"
    and n: "\<forall>v. name_f (lead_info s') = Some v \<longrightarrow> name_f (lead_info final) = Some v"
    and e: "\<forall>v. email_f (lead_info s') = Some v \<longrightarrow> email_f (lead_info final) = Some v"
    and p: "\<forall>v. platform_f (lead_info s') = Some v \<longrightarrow> platform_f (lead_info final) = Some v"
    by blast
  have "\<And>v. name_f (lead_info s) = Some v \<Longrightarrow> name_f (lead_info s') = Some v"
    using l by (auto simp: merge_keeps)
  moreover have "\<And>v. email_f (lead_info s) = Some v \<Longrightarrow> email_f (lead_info s') = Some v"
    using l by (auto simp: merge_keeps)
  moreover have "\<And>v. platform_f (lead_info s) = Some v \<Longrightarrow> platform_f (lead_info s') = Some v"
    using l by (auto simp: merge_keeps)
  ultimately show ?case using f n e p by blast
qed

lemma run_turns_returns:
  assumes "\<forall>(ad, m)\<in>set turns. \<forall>p ms. \<exists>t. chat_llm ad p ms = Inr t"
  shows "\<exists>final effs. run_turns (Some s) turns = Inr (Some final, effs)"
  using assms
proof (induction turns arbitrary: s)
  case Nil
  show ?case by simp
next
  case (Cons t turns)
  obtain ad m where t: "t = (ad, m)" by (cases t)
  with Cons.prems have "\<forall>p ms. \<exists>t. chat_llm ad p ms = Inr t" by simp
  from chat_returns [OF this] obtain r s' effs1 where
    c: "chat ad m (Some s) = Inr ((r, s'), effs1)" by blast
  from Cons.prems have "\<forall>(ad, m)\<in>set turns. \<forall>p ms. \<exists>t. chat_llm ad p ms = Inr t" by simp
  from Cons.IH [OF this, of s'] obtain final effs2 where
    "run_turns (Some s') turns = Inr (Some final, effs2)" by blast
  with t c show ?case by simp
qed

lemma fixed_adapters_return: "\<forall>p ms. \<exists>t. chat_llm (fixed_adapters c g r) p ms = Inr t"
  by (simp add: fixed_adapters_def)


section \<open>The lead over a conversation\<close>

lemma valid_example: "validate_email ''john.doe@example.com''"
  by code_simp

lemma invalid_example: "\<not> validate_email ''john.doe@invalid''"
  by code_simp

text \<open>
  Claim C1. Over any conversation that continues from a state \<open>s\<close> and returns (a turn
  in which a collaborator raises has no result), whatever the collaborators answer: a
  name or a platform that \<open>s\<close> holds with a non-empty value is the same after the last
  turn, and so is an email that \<open>s\<close> holds with a non-empty value that \<open>validate_email\<close>
  accepts. Nothing is said of an email that fails \<open>validate_email\<close>: that is the one
  exception the claim allows.
\<close>

theorem set_lead_fields_are_frozen:
  assumes "run_turns (Some s) turns = Inr (Some final, effs)"
  shows "(\<forall>v. name_f (lead_info s) = Some v \<and> v \<noteq> [] \<longrightarrow> name_f (lead_info final) = Some v) \<and>
     (\<forall>v. platform_f (lead_info s) = Some v \<and> v \<noteq> [] \<longrightarrow> platform_f (lead_info final) = Some v) \<and>
     (\<forall>v. email_f (lead_info s) = Some v \<and> v \<noteq> [] \<and> validate_email v
          \<longrightarrow> email_f (lead_info final) = Some v)"
  using run_turns_keeps [OF assms] by auto

theorem set_lead_fields_are_frozen_witness:
  "\<exists>final effs.
     run_turns (Some (lead_of (Some ''John Doe'') (Some ''john.doe@example.com'') (Some ''YouTube'')))
       [(fixed_adapters ''high_intent_lead'' ''Hello!'' [], ''I am Jane Roe, jane@roe.org, on TikTok''),
        (fixed_adapters ''greeting'' ''Hello!'' [], ''hi'')]
       = Inr (Some final, effs) \<and>
     name_f (lead_info final) = Some ''John Doe'' \<and>
     platform_f (lead_info final) = Some ''YouTube'' \<and>
     email_f (lead_info final) = Some ''john.doe@example.com''"
proof -
  let ?s = "lead_of (Some ''John Doe'') (Some ''john.doe@example.com'') (Some ''YouTube'')"
  let ?turns = "[(fixed_adapters ''high_intent_lead'' ''Hello!'' [], ''I am Jane Roe, jane@roe.org, on TikTok''),
                 (fixed_adapters ''greeting'' ''Hello!'' [], ''hi'')]"
  have "\<forall>(ad, m)\<in>set ?turns. \<forall>p ms. \<exists>t. chat_llm ad p ms = Inr t"
    by (simp add: fixed_adapters_return)
  from run_turns_returns [OF this, of ?s] obtain final effs where
    r: "run_turns (Some ?s) ?turns = Inr (Some final, effs)" by blast
  from set_lead_fields_are_frozen [OF r] valid_example
  have "name_f (lead_info final) = Some ''John Doe'' \<and>
        platform_f (lead_info final) = Some ''YouTube'' \<and>
        email_f (lead_info final) = Some ''john.doe@example.com''"
    by (simp add: lead_of_def initial_state_def)
  with r show ?thesis by blast
qed

text \<open>
  Claim C2. In a state whose lead is in slot-filling mode, for every user message and
  whatever the collaborators are, the turn returns with the intent
  \<open>high_intent_lead\<close>, makes no call to the classifier, runs the Lead Branch (the lead
  of the new state is the old one merged with the extraction from the message), and its
  whole result is the same under any other collaborators \<open>ad'\<close>.
\<close>

theorem slot_filling_forces_lead_intent:
  assumes "inSlotFillingMode (lead_info s)"
  shows "\<exists>response s' effs.
           chat ad user_message (Some s) = Inr ((response, s'), effs)
         \<and> intent s' = intent_value HIGH_INTENT_LEAD
         \<and> filter is_classifier_call effs = []
         \<and> lead_info s' = merge_extracted (extract_info_from_message user_message) (lead_info s)
         \<and> chat ad' user_message (Some s) = chat ad user_message (Some s)"
proof -
  have c: "is_collecting_lead (lead_info s)"
    using assms by (rule slot_filling_is_collecting)
  show ?thesis
    by (simp add: chat_collecting [OF c] Let_def lead_turn_state_def)
qed

theorem slot_filling_forces_lead_intent_witness:
  "inSlotFillingMode (lead_info (lead_of None None (Some ''YouTube''))) \<and>
   (\<exists>response s' effs.
      chat (fixed_adapters ''greeting'' ''Hello!'' []) ''no thanks'' (Some (lead_of None None (Some ''YouTube'')))
        = Inr ((response, s'), effs)
    \<and> intent s' = ''high_intent_lead''
    \<and> filter is_classifier_call effs = []
    \<and> chat (fixed_adapters ''product_inquiry'' ''Hi'' []) ''no thanks'' (Some (lead_of None None (Some ''YouTube'')))
        = chat (fixed_adapters ''greeting'' ''Hello!'' []) ''no thanks'' (Some (lead_of None None (Some ''YouTube''))))"
proof -
  have h: "inSlotFillingMode (lead_info (lead_of None None (Some ''YouTube'')))"
    by (simp add: inSlotFillingMode_def lead_of_def initial_state_def known_def empty_lead_def)
  show ?thesis
    using h slot_filling_forces_lead_intent
      [OF h, where ad = "fixed_adapters ''greeting'' ''Hello!'' []" and user_message = "''no thanks''"
         and ad' = "fixed_adapters ''product_inquiry'' ''Hi'' []"]
    by auto
qed

text \<open>
  Claim C4. From a state whose lead holds a non-empty name, a non-empty platform and an
  email that fails \<open>validate_email\<close>, every conversation returns; after each further turn
  the intent is \<open>high_intent_lead\<close>, the stored email is the same, the lead capture has
  not been called, and \<open>_check_lead_info_complete\<close> still answers \<open>incomplete\<close>.
\<close>

theorem invalid_stored_email_never_completes:
  assumes "name_f (lead_info s) = Some n" and "n \<noteq> []"
      and "platform_f (lead_info s) = Some p" and "p \<noteq> []"
      and "email_f (lead_info s) = Some e" and "\<not> validate_email e"
  shows "\<exists>final effs.
           run_turns (Some s) turns = Inr (Some final, effs)
         \<and> (turns \<noteq> [] \<longrightarrow> intent final = intent_value HIGH_INTENT_LEAD)
         \<and> email_f (lead_info final) = Some e
         \<and> filter is_capture effs = []
         \<and> check_lead_info_complete final = ''incomplete''"
  using assms
proof (induction turns arbitrary: s)
  case Nil
  then show ?case
    by (simp add: check_lead_info_complete_def Let_def)
next
  case (Cons t turns)
  obtain ad m where t: "t = (ad, m)" by (cases t)
  have c: "is_collecting_lead (lead_info s)"
    using Cons.prems by (simp add: is_collecting_lead_def lead_bool_def)
  define l where "l = merge_extracted (extract_info_from_message m) (lead_info s)"
  have n: "name_f l = Some n" and p: "platform_f l = Some p" and e: "email_f l = Some e"
    using Cons.prems by (simp_all add: l_def merge_keeps)
  have ch: "chat ad m (Some s) = Inr ((lead_response_text (missing_fields l), lead_turn_state s m), [])"
    using Cons.prems(6) e by (simp add: chat_collecting [OF c] l_def [symmetric] Let_def get_or_empty_def)
  have li: "lead_info (lead_turn_state s m) = l"
    by (simp add: lead_turn_state_def l_def)
  from Cons.IH [of "lead_turn_state s m"] Cons.prems n p e li
  obtain final effs where
    r: "run_turns (Some (lead_turn_state s m)) turns = Inr (Some final, effs)"
    and i: "turns \<noteq> [] \<longrightarrow> intent final = intent_value HIGH_INTENT_LEAD"
    and rest: "email_f (lead_info final) = Some e" "filter is_capture effs = []"
              "check_lead_info_complete final = ''incomplete''"
    by auto
  have i': "intent final = intent_value HIGH_INTENT_LEAD"
  proof (cases "turns = []")
    case True
    with r show ?thesis by (auto simp: lead_turn_state_def)
  next
    case False
    with i show ?thesis by simp
  qed
  have "run_turns (Some s) (t # turns) = Inr (Some final, [] @ effs)"
    using t ch r by simp
  with i' rest show ?case by simp
qed

theorem invalid_stored_email_never_completes_witness:
  "\<not> validate_email ''john.doe@invalid'' \<and>
   (\<exists>final effs.
      run_turns (Some (lead_of (Some ''John Doe'') (Some ''john.doe@invalid'') (Some ''YouTube'')))
        [(fixed_adapters ''greeting'' ''Hello!'' [], ''john.doe@example.com''),
         (fixed_adapters ''greeting'' ''Hello!'' [], ''my email is john.doe@example.com'')]
        = Inr (Some final, effs)
    \<and> intent final = ''high_intent_lead''
    \<and> email_f (lead_info final) = Some ''john.doe@invalid''
    \<and> filter is_capture effs = []
    \<and> check_lead_info_complete final = ''incomplete'')"
  using invalid_example invalid_stored_email_never_completes
    [of "lead_of (Some ''John Doe'') (Some ''john.doe@invalid'') (Some ''YouTube'')"
        "''John Doe''" "''YouTube''" "''john.doe@invalid''"
        "[(fixed_adapters ''greeting'' ''Hello!'' [], ''john.doe@example.com''),
          (fixed_adapters ''greeting'' ''Hello!'' [], ''my email is john.doe@example.com'')]"]
  by (simp add: lead_of_def initial_state_def)

section \<open>The completed lead\<close>

lemma confirmation_contains:
  "sublist n (confirmation_text n e p)"
  "sublist e (confirmation_text n e p)"
  "sublist p (confirmation_text n e p)"
  unfolding confirmation_text_def sublist_def
  by (metis append.assoc)+

lemma chat_detected_lead:
  assumes "\<not> is_collecting_lead (lead_info s)"
      and "detect ad m (format_conversation_history (messages s)) = (HIGH_INTENT_LEAD, effs)"
  shows "chat ad m (Some s) =
     (let l = merge_extracted (extract_info_from_message m) (lead_info s)
      in if truthy (name_f l) \<and> truthy (email_f l) \<and> validate_email (get_or_empty (email_f l)) \<and> truthy (platform_f l)
         then Inr ((confirmation_text (get_or_empty (name_f l)) (get_or_empty (email_f l)) (get_or_empty (platform_f l)),
                    (lead_turn_state s m)\<lparr>messages := messages (lead_turn_state s m) @
                       [AIMessage (confirmation_text (get_or_empty (name_f l)) (get_or_empty (email_f l)) (get_or_empty (platform_f l)))]\<rparr>),
                   effs @ [LeadCaptured (get_or_empty (name_f l)) (get_or_empty (email_f l)) (get_or_empty (platform_f l))])
         else Inr ((lead_response_text (missing_fields l), lead_turn_state s m), effs))"
  using assms
  by (simp add: chat_def invoke_def process_message_def then_node_Inr route_node_lead
      lead_branch Let_def lead_turn_state_def lead_response_text_nonempty confirmation_text_nonempty)

lemma detect_effects: "filter is_capture (snd (detect ad m h)) = []"
  by (simp add: detect_def Let_def)

text \<open>
  Claim C10. A turn that reaches the Lead Branch (slot-filling mode, or the detector
  says \<open>high_intent_lead\<close>) and leaves a lead \<open>l\<close> with nothing missing, that is with a
  name \<open>n\<close>, an email \<open>e\<close> and a platform \<open>p\<close> all known in the sense of the data model
  (there and not the empty string), where \<open>validate_email e\<close> holds: the list
  \<open>missing\<close> is empty, the only capture among the effects of the turn is the one call
  \<open>mock_lead_capture n e p\<close>, the response is the confirmation text, and \<open>n\<close>, \<open>e\<close> and
  \<open>p\<close> each occur in it.
\<close>

theorem complete_lead_is_captured_once:
  assumes "is_collecting_lead (lead_info s) \<or>
           fst (detect ad m (format_conversation_history (messages s))) = HIGH_INTENT_LEAD"
      and "l = merge_extracted (extract_info_from_message m) (lead_info s)"
      and "name_f l = Some n" and "n \<noteq> []"
      and "email_f l = Some e" and "validate_email e"
      and "platform_f l = Some p" and "p \<noteq> []"
  shows "\<exists>s' effs.
           chat ad m (Some s) = Inr ((confirmation_text n e p, s'), effs)
         \<and> missing_fields l = []
         \<and> filter is_capture effs = [LeadCaptured n e p]
         \<and> lead_info s' = l
         \<and> sublist n (confirmation_text n e p)
         \<and> sublist e (confirmation_text n e p)
         \<and> sublist p (confirmation_text n e p)"
proof (cases "is_collecting_lead (lead_info s)")
  case True
  have ne: "e \<noteq> []"
    using assms(6) validate_email_Nil by auto
  show ?thesis
    using assms(2-8) ne
    by (simp add: chat_collecting [OF True] Let_def truthy_def get_or_empty_def
        missing_fields_def lead_turn_state_def confirmation_contains)
next
  case False
  obtain i effs where d: "detect ad m (format_conversation_history (messages s)) = (i, effs)"
    by (cases "detect ad m (format_conversation_history (messages s))")
  with False assms(1) have i: "i = HIGH_INTENT_LEAD" by simp
  have f: "filter is_capture effs = []"
    using detect_effects [of ad m "format_conversation_history (messages s)"] d by simp
  have ne: "e \<noteq> []"
    using assms(6) validate_email_Nil by auto
  show ?thesis
    using assms(2-8) f ne
    by (simp add: chat_detected_lead [OF False d [unfolded i]] Let_def truthy_def get_or_empty_def
        missing_fields_def lead_turn_state_def confirmation_contains)
qed

lemma extract_example:
  "extract_info_from_message ''john.doe@example.com'' =
     \<lparr>name_f = None, email_f = Some ''john.doe@example.com'', platform_f = Some ''Twitter''\<rparr>"
  by code_simp

theorem complete_lead_is_captured_once_witness:
  "is_collecting_lead (lead_info (lead_of (Some ''John Doe'') None (Some ''YouTube''))) \<and>
   validate_email ''john.doe@example.com'' \<and>
   (\<exists>s' effs.
      chat (fixed_adapters ''greeting'' ''Hello!'' []) ''john.doe@example.com''
        (Some (lead_of (Some ''John Doe'') None (Some ''YouTube'')))
        = Inr ((confirmation_text ''John Doe'' ''john.doe@example.com'' ''YouTube'', s'), effs)
    \<and> filter is_capture effs = [LeadCaptured ''John Doe'' ''john.doe@example.com'' ''YouTube'']
    \<and> lead_info s' = \<lparr>name_f = Some ''John Doe'', email_f = Some ''john.doe@example.com'',
                        platform_f = Some ''YouTube''\<rparr>)"
proof -
  let ?s = "lead_of (Some ''John Doe'') None (Some ''YouTube'')"
  let ?l = "\<lparr>name_f = Some ''John Doe'', email_f = Some ''john.doe@example.com'',
             platform_f = Some ''YouTube''\<rparr>"
  have c: "is_collecting_lead (lead_info ?s)"
    by (simp add: lead_of_def initial_state_def is_collecting_lead_def lead_bool_def truthy_def)
  have l: "?l = merge_extracted (extract_info_from_message ''john.doe@example.com'') (lead_info ?s)"
    by (simp add: extract_example merge_extracted_def lead_of_def initial_state_def)
  have "\<exists>s' effs.
      chat (fixed_adapters ''greeting'' ''Hello!'' []) ''john.doe@example.com'' (Some ?s)
        = Inr ((confirmation_text ''John Doe'' ''john.doe@example.com'' ''YouTube'', s'), effs)
    \<and> missing_fields ?l = []
    \<and> filter is_capture effs = [LeadCaptured ''John Doe'' ''john.doe@example.com'' ''YouTube'']
    \<and> lead_info s' = ?l
    \<and> sublist ''John Doe'' (confirmation_text ''John Doe'' ''john.doe@example.com'' ''YouTube'')
    \<and> sublist ''john.doe@example.com'' (confirmation_text ''John Doe'' ''john.doe@example.com'' ''YouTube'')
    \<and> sublist ''YouTube'' (confirmation_text ''John Doe'' ''john.doe@example.com'' ''YouTube'')"
    using valid_example
      complete_lead_is_captured_once
        [where s = ?s and ad = "fixed_adapters ''greeting'' ''Hello!'' []"
           and m = "''john.doe@example.com''" and l = ?l
           and n = "''John Doe''" and e = "''john.doe@example.com''" and p = "''YouTube''",
         OF disjI1 [OF c] l]
    by simp
  then show ?thesis
    using c valid_example by blast
qed

section \<open>Leads with an invalid email or an empty field\<close>

lemma ex_ok: "extract_info_from_message ''ok'' = \<lparr>name_f = Some ''ok'', email_f = None, platform_f = None\<rparr>"
  by code_simp

lemma ex_pipe: "extract_info_from_message ''john@example.co|m'' =
   \<lparr>name_f = None, email_f = Some ''john@example.co|m'', platform_f = Some ''Twitter''\<rparr>"
  by code_simp

lemma invalid_pipe: "\<not> validate_email ''john@example.co|m''"
  by code_simp



lemma collecting_invalid:
  "is_collecting_lead (lead_info (lead_of (Some ''John Doe'') (Some ''john.doe@invalid'') (Some ''YouTube'')))"
  using invalid_example
  by (simp add: is_collecting_lead_def lead_bool_def lead_of_def initial_state_def)

lemma collecting_no_email:
  "is_collecting_lead (lead_info (lead_of (Some ''John Doe'') None (Some ''YouTube'')))"
  by (simp add: is_collecting_lead_def lead_bool_def lead_of_def initial_state_def truthy_def)

text \<open>
  Claim C3, evaluated. With a name, a platform and the email \<open>john.doe@invalid\<close> stored,
  the turn for the message \<open>ok\<close> calls no collaborator and keeps the email, and its
  response is \<open>Thank you! I have all the information I need.\<close>, not a request for a
  valid email: \<open>_check_lead_info_complete\<close> answers \<open>incomplete\<close> for an invalid email,
  so the request in \<open>_collect_lead_info\<close> is never reached. Such a lead arises in a
  conversation: the message \<open>john@example.co|m\<close> is stored as the email (the extraction
  pattern admits \<open>|\<close> in the last label) and fails \<open>validate_email\<close>.
\<close>

theorem invalid_email_turn_says_thank_you:
  "chat (fixed_adapters ''greeting'' ''Hello!'' []) ''ok''
     (Some (lead_of (Some ''John Doe'') (Some ''john.doe@invalid'') (Some ''YouTube'')))
   = Inr ((''Thank you! I have all the information I need.'',
           lead_turn_state (lead_of (Some ''John Doe'') (Some ''john.doe@invalid'') (Some ''YouTube'')) ''ok''),
          [])
   \<and> chat (fixed_adapters ''greeting'' ''Hello!'' []) ''john@example.co|m''
       (Some (lead_of (Some ''John Doe'') None (Some ''YouTube'')))
     = Inr ((''Thank you! I have all the information I need.'',
             lead_turn_state (lead_of (Some ''John Doe'') None (Some ''YouTube'')) ''john@example.co|m''),
            [])
   \<and> lead_info (lead_turn_state (lead_of (Some ''John Doe'') None (Some ''YouTube'')) ''john@example.co|m'')
     = \<lparr>name_f = Some ''John Doe'', email_f = Some ''john@example.co|m'', platform_f = Some ''YouTube''\<rparr>
   \<and> \<not> validate_email ''john@example.co|m''"
  unfolding chat_collecting [OF collecting_invalid] chat_collecting [OF collecting_no_email]
  using invalid_example invalid_pipe
  by (simp add: ex_ok ex_pipe Let_def lead_of_def initial_state_def merge_extracted_def get_or_empty_def
      missing_fields_def lead_response_text_def lead_turn_state_def truthy_def)




section \<open>The intent detector and the email validator\<close>

text \<open>
  Claim C5, amended. For every text the classifier model returns: when the text, stripped
  of surrounding white space and lowercased, is none of \<open>greeting\<close>, \<open>product_inquiry\<close>
  and \<open>high_intent_lead\<close>, the detected intent is \<open>PRODUCT_INQUIRY\<close>.
\<close>

theorem unknown_label_after_normalising_is_product_inquiry:
  assumes "py_lower (py_strip (intent_llm ad (if h = [] then ''No previous conversation.'' else h) m))
           \<notin> {''greeting'', ''product_inquiry'', ''high_intent_lead''}"
  shows "fst (detect ad m h) = PRODUCT_INQUIRY"
  using assms
  by (simp add: detect_def Let_def intent_map_def)

lemma lower_strip_hello: "py_lower (py_strip ''hello there'') = ''hello there''"
  by code_simp

lemma lower_strip_Greeting: "py_lower (py_strip ''Greeting'') = ''greeting''"
  by code_simp

theorem unknown_label_after_normalising_is_product_inquiry_witness:
  "py_lower (py_strip (intent_llm (fixed_adapters ''hello there'' [] []) ''No previous conversation.'' ''hi''))
     \<notin> {''greeting'', ''product_inquiry'', ''high_intent_lead''}
   \<and> fst (detect (fixed_adapters ''hello there'' [] []) ''hi'' []) = PRODUCT_INQUIRY"
proof -
  have h: "py_lower (py_strip (intent_llm (fixed_adapters ''hello there'' [] [])
              (if ([]::string) = [] then ''No previous conversation.'' else []) ''hi''))
           \<notin> {''greeting'', ''product_inquiry'', ''high_intent_lead''}"
    by (simp add: fixed_adapters_def lower_strip_hello)
  show ?thesis
    using h unknown_label_after_normalising_is_product_inquiry [OF h]
    by simp
qed

text \<open>
  Claim C5 as stated fails: the returned text \<open>Greeting\<close> is none of the three labels,
  and the detected intent is \<open>GREETING\<close>.
\<close>

theorem capitalised_label_counterexample:
  "intent_llm (fixed_adapters ''Greeting'' [] []) ''No previous conversation.'' ''hi'' = ''Greeting''
   \<and> ''Greeting'' \<notin> {''greeting'', ''product_inquiry'', ''high_intent_lead''}
   \<and> fst (detect (fixed_adapters ''Greeting'' [] []) ''hi'' []) = GREETING
   \<and> fst (detect (fixed_adapters ''Greeting'' [] []) ''hi'' []) \<noteq> PRODUCT_INQUIRY"
  by (simp add: detect_def Let_def intent_map_def fixed_adapters_def lower_strip_Greeting)

text \<open>
  Claim C6, evaluated. \<open>validate_email\<close> accepts \<open>a@b.co\<close> followed by a line feed:
  \<open>$\<close> also matches just before a line feed that ends the string, so the match is not
  of the entire input.
\<close>

theorem validate_email_accepts_trailing_newline:
  "validate_email (''a@b.co'' @ [CHR 0x0A]) \<and> ''a@b.co'' @ [CHR 0x0A] \<noteq> ''a@b.co''"
  by code_simp

section \<open>Platform extraction\<close>

lemma py_in_sublist: "py_in k s = sublist k s"
  by (induction s) (simp_all add: sublist_Cons_right)

lemma py_lower_idem: "py_lower (py_lower m) = py_lower m"
  by (simp add: py_lower_def lower_chr_idem)

lemma platform_loop_platform:
  "platform_f (platform_loop ps ml ex) =
     (case find (\<lambda>(k, v). sublist k ml) ps of None \<Rightarrow> platform_f ex | Some (k, v) \<Rightarrow> Some v)"
  by (induction ps ml ex rule: platform_loop.induct) (simp_all add: py_in_sublist)

lemma platform_loop_others:
  "name_f (platform_loop ps ml ex) = name_f ex"
  "email_f (platform_loop ps ml ex) = email_f ex"
  by (induction ps ml ex rule: platform_loop.induct) simp_all

lemma name_loop_others:
  "platform_f (name_loop pats m ex) = platform_f ex"
  "email_f (name_loop pats m ex) = email_f ex"
  by (induction pats m ex rule: name_loop.induct) (simp_all add: Let_def split: option.splits prod.splits)

lemma extract_platform:
  "platform_f (extract_info_from_message m) =
     (case find (\<lambda>(k, v). sublist k (py_lower m)) platforms of None \<Rightarrow> None | Some (k, v) \<Rightarrow> Some v)"
  by (simp add: extract_info_from_message_def Let_def name_loop_others platform_loop_platform
      platform_loop_others empty_lead_def split: option.splits prod.splits)

text \<open>
  Claim C7. For every message, the platform the extractor returns is that of the first
  entry, in the order youtube, instagram, tiktok, facebook, twitter, x (for Twitter),
  linkedin, twitch, vimeo, snapchat, whose key is a substring of the lowercased message,
  and none when no key is; the message and its lowercased form give the same platform.
  The result holds at most one platform: it is a single optional field.
\<close>

theorem platform_first_key_in_order_wins:
  "platform_f (extract_info_from_message m) =
     (case find (\<lambda>(key, name). sublist key (py_lower m))
             [(''youtube'', ''YouTube''), (''instagram'', ''Instagram''), (''tiktok'', ''TikTok''),
              (''facebook'', ''Facebook''), (''twitter'', ''Twitter''), (''x'', ''Twitter''),
              (''linkedin'', ''LinkedIn''), (''twitch'', ''Twitch''), (''vimeo'', ''Vimeo''),
              (''snapchat'', ''Snapchat'')] of
        None \<Rightarrow> None
      | Some (key, name) \<Rightarrow> Some name)
   \<and> platform_f (extract_info_from_message (py_lower m)) = platform_f (extract_info_from_message m)"
  by (simp add: extract_platform py_lower_idem platforms_def)

lemma lower_tiktok: "py_lower ''I post on TikTok and on YOUTUBE'' = ''i post on tiktok and on youtube''"
  by code_simp

theorem platform_first_key_in_order_wins_witness:
  "platform_f (extract_info_from_message ''I post on TikTok and on YOUTUBE'') = Some ''YouTube''"
  using platform_first_key_in_order_wins [of "''I post on TikTok and on YOUTUBE''"]
  by (simp add: lower_tiktok py_in_sublist [symmetric])

section \<open>The matcher, and messages that are only an email address\<close>

lemma rep_greedy_consumes:
  "(p', s') \<in> set (rep_greedy ic cl n p s) \<Longrightarrow>
   \<exists>u. s = u @ s' \<and> (\<forall>c\<in>set u. cls_ok ic cl c) \<and> n \<le> length u"
proof (induction s arbitrary: n p)
  case Nil
  then show ?case by (simp split: if_splits)
next
  case (Cons c cs)
  from Cons.prems consider
    (take) "cls_ok ic cl c" "(p', s') \<in> set (rep_greedy ic cl (n - 1) (Some c) cs)"
    | (stop) "n = 0" "s' = c # cs"
    by (auto split: if_splits)
  then show ?case
  proof cases
    case take
    from Cons.IH [OF take(2)] obtain u where
      "cs = u @ s'" "\<forall>c\<in>set u. cls_ok ic cl c" "n - 1 \<le> length u" by blast
    with take(1) have "c # cs = (c # u) @ s' \<and> (\<forall>x\<in>set (c # u). cls_ok ic cl x) \<and> n \<le> length (c # u)"
      by auto
    then show ?thesis by blast
  next
    case stop
    then show ?thesis by simp
  qed
qed

lemma rmatch_consumes:
  "(p', s', g') \<in> set (rmatch ic r (p, s, g)) \<Longrightarrow>
   \<exists>u. s = u @ s' \<and> (\<forall>c\<in>set u. rx_chars ic r c)"
proof (induction r arbitrary: p s g p' s' g')
  case Eps
  then show ?case by simp
next
  case (Cls cl)
  then show ?case by (auto split: list.splits if_splits)
next
  case (Seq a b)
  from Seq.prems obtain p1 s1 g1 where
    a: "(p1, s1, g1) \<in> set (rmatch ic a (p, s, g))"
    and b: "(p', s', g') \<in> set (rmatch ic b (p1, s1, g1))"
    by auto
  from Seq.IH(1) [OF a] obtain u where u: "s = u @ s1" "\<forall>c\<in>set u. rx_chars ic a c" by blast
  from Seq.IH(2) [OF b] obtain v where v: "s1 = v @ s'" "\<forall>c\<in>set v. rx_chars ic b c" by blast
  have "s = (u @ v) @ s' \<and> (\<forall>c\<in>set (u @ v). rx_chars ic (Seq a b) c)"
    using u v by auto
  then show ?case by blast
next
  case (Alt a b)
  from Alt.prems have
    "(p', s', g') \<in> set (rmatch ic a (p, s, g)) \<or> (p', s', g') \<in> set (rmatch ic b (p, s, g))"
    by simp
  then show ?case
    using Alt.IH by fastforce
next
  case (Opt a)
  from Opt.prems have
    "(p', s', g') \<in> set (rmatch ic a (p, s, g)) \<or> s' = s"
    by auto
  then show ?case
    using Opt.IH by fastforce
next
  case (Rep n cl)
  then have "(p', s') \<in> set (rep_greedy ic cl n p s)" by auto
  from rep_greedy_consumes [OF this] show ?case by auto
next
  case Bol
  then show ?case by (simp split: if_splits)
next
  case Eol
  then show ?case by (simp split: if_splits)
next
  case WordB
  then show ?case by (simp split: if_splits)
next
  case (Grp a)
  from Grp.prems obtain g0 where "(p', s', g0) \<in> set (rmatch ic a (p, s, g))"
    by auto
  from Grp.IH [OF this] show ?case by simp
qed

lemma rmatch_needs:
  "rx_needs ic Q r \<Longrightarrow> (p', s', g') \<in> set (rmatch ic r (p, s, g)) \<Longrightarrow>
   \<exists>u. s = u @ s' \<and> (\<exists>c\<in>set u. Q c)"
proof (induction r arbitrary: p s g p' s' g')
  case (Cls cl)
  then show ?case by (auto split: list.splits if_splits)
next
  case (Seq a b)
  from Seq.prems(2) obtain p1 s1 g1 where
    a: "(p1, s1, g1) \<in> set (rmatch ic a (p, s, g))"
    and b: "(p', s', g') \<in> set (rmatch ic b (p1, s1, g1))"
    by auto
  from rmatch_consumes [OF a] obtain u where u: "s = u @ s1" by blast
  from rmatch_consumes [OF b] obtain v where v: "s1 = v @ s'" by blast
  from Seq.prems(1) have "rx_needs ic Q a \<or> rx_needs ic Q b" by simp
  then show ?case
  proof
    assume "rx_needs ic Q a"
    from Seq.IH(1) [OF this a] obtain u' where "s = u' @ s1" "\<exists>c\<in>set u'. Q c" by blast
    with v have "s = (u' @ v) @ s' \<and> (\<exists>c\<in>set (u' @ v). Q c)" by auto
    then show ?thesis by blast
  next
    assume "rx_needs ic Q b"
    from Seq.IH(2) [OF this b] obtain v' where "s1 = v' @ s'" "\<exists>c\<in>set v'. Q c" by blast
    with u have "s = (u @ v') @ s' \<and> (\<exists>c\<in>set (u @ v'). Q c)" by auto
    then show ?thesis by blast
  qed
next
  case (Alt a b)
  from Alt.prems(2) have
    "(p', s', g') \<in> set (rmatch ic a (p, s, g)) \<or> (p', s', g') \<in> set (rmatch ic b (p, s, g))"
    by simp
  with Alt.prems(1) Alt.IH show ?case by fastforce
next
  case (Rep n cl)
  then have "(p', s') \<in> set (rep_greedy ic cl n p s)" by auto
  from rep_greedy_consumes [OF this] obtain u where
    u: "s = u @ s'" "\<forall>c\<in>set u. cls_ok ic cl c" "n \<le> length u" by blast
  with Rep.prems(1) have "u \<noteq> []" by auto
  then obtain c where "c \<in> set u" by (cases u) auto
  with u Rep.prems(1) show ?case by auto
next
  case (Grp a)
  from Grp.prems(2) obtain g0 where "(p', s', g0) \<in> set (rmatch ic a (p, s, g))"
    by auto
  from Grp.IH [OF _ this] Grp.prems(1) show ?case by simp
qed simp_all


lemma first_match_Some:
  assumes "first_match ic r p s = Some (w, g)"
  shows "\<exists>p' s'. (p', s', g) \<in> set (rmatch ic r (p, s, None)) \<and> s = w @ s'"
proof -
  from assms obtain p' s' rest where
    hd: "rmatch ic r (p, s, None) = (p', s', g) # rest"
    and w: "w = take (length s - length s') s"
    by (auto simp: first_match_def split: list.splits)
  then have m: "(p', s', g) \<in> set (rmatch ic r (p, s, None))" by simp
  from rmatch_consumes [OF m] obtain u where "s = u @ s'" by blast
  with w have "s = w @ s'" by simp
  with m show ?thesis by blast
qed

lemma search_from_length:
  "search_from ic r p s = Some (w, g) \<Longrightarrow> length w \<le> length s"
proof (induction s arbitrary: p)
  case Nil
  then show ?case by (auto dest: first_match_Some)
next
  case (Cons c cs)
  show ?case
  proof (cases "first_match ic r p (c # cs)")
    case None
    with Cons.prems have "search_from ic r (Some c) cs = Some (w, g)" by simp
    from Cons.IH [OF this] show ?thesis by simp
  next
    case (Some x)
    with Cons.prems have "first_match ic r p (c # cs) = Some (w, g)" by simp
    from first_match_Some [OF this] obtain s' where "c # cs = w @ s'" by blast
    then have "length (c # cs) = length w + length s'" by (metis length_append)
    then show ?thesis by simp
  qed
qed

lemma search_from_whole:
  assumes "search_from ic r p s = Some (s, g)"
  shows "first_match ic r p s = Some (s, g)"
proof (cases s)
  case Nil
  with assms show ?thesis by simp
next
  case (Cons c cs)
  show ?thesis
  proof (cases "first_match ic r p (c # cs)")
    case None
    with assms Cons have "search_from ic r (Some c) cs = Some (c # cs, g)" by simp
    from search_from_length [OF this] show ?thesis by simp
  next
    case (Some x)
    with assms Cons show ?thesis by simp
  qed
qed

lemma search_from_needs:
  "search_from ic r p s = Some (w, g) \<Longrightarrow> rx_needs ic Q r \<Longrightarrow> \<exists>c\<in>set s. Q c"
proof (induction s arbitrary: p)
  case Nil
  from first_match_Some [of ic r p "[]" w g] Nil.prems(1)
  obtain p' s' where "(p', s', g) \<in> set (rmatch ic r (p, [], None))" by auto
  from rmatch_needs [OF Nil.prems(2) this] show ?case by simp
next
  case (Cons c cs)
  show ?case
  proof (cases "first_match ic r p (c # cs)")
    case None
    with Cons.prems(1) have "search_from ic r (Some c) cs = Some (w, g)" by simp
    from Cons.IH [OF this Cons.prems(2)] show ?thesis by simp
  next
    case (Some x)
    with Cons.prems(1) have "first_match ic r p (c # cs) = Some (w, g)" by simp
    from first_match_Some [OF this] obtain p' s' where
      m: "(p', s', g) \<in> set (rmatch ic r (p, c # cs, None))" by blast
    from rmatch_needs [OF Cons.prems(2) m] obtain u where
      "c # cs = u @ s'" "\<exists>x\<in>set u. Q x" by blast
    then show ?thesis by (metis Un_iff set_append)
  qed
qed

lemma search_from_bol:
  "search_from ic (Seq Bol r) (Some c) s = None"
  by (induction s arbitrary: c) (simp_all add: first_match_def)

lemma search_bol_start:
  assumes "search_from ic (Seq Bol r) None s = Some (w, g)"
  shows "first_match ic (Seq Bol r) None s = Some (w, g)"
proof (cases s)
  case Nil
  with assms show ?thesis by simp
next
  case (Cons c cs)
  with assms show ?thesis
    by (cases "first_match ic (Seq Bol r) None (c # cs)") (simp_all add: search_from_bol)
qed

lemma cls_space_sep: "cls_ok ic [Space] c \<Longrightarrow> sep_chr c"
  by (auto simp: cls_ok_def in_cls_def sep_chr_def is_space_lower is_space_upper)

lemma cls_colon_space_sep: "cls_ok ic [Single CHR '':'', Space] c \<Longrightarrow> sep_chr c"
  by (auto simp: cls_ok_def in_cls_def sep_chr_def is_space_lower is_space_upper colon_lower colon_upper)

lemma name_patterns_need_sep:
  "rx_needs True sep_chr (name_patterns ! 0)"
  "rx_needs True sep_chr (name_patterns ! 1)"
  "rx_needs True sep_chr (name_patterns ! 3)"
  using cls_space_sep cls_colon_space_sep
  by (auto simp: name_patterns_def cap_word_def)

lemma email_pattern_chars:
  "rx_chars False email_pattern c \<Longrightarrow> \<not> sep_chr c"
  apply (simp add: email_pattern_def cls_ok_def in_cls_def)
  apply (elim disjE conjE)
  apply (simp_all add: sep_chr_def is_space_def)
  apply (auto simp: less_eq_char_def)
  done

lemma email_pattern_needs_at:
  "rx_needs False (\<lambda>c. c = CHR ''@'') email_pattern"
  by (simp add: email_pattern_def cls_ok_def in_cls_def)

lemma name_body_not_at: "\<not> rx_chars True (Grp name_body) CHR ''@''"
  by code_simp

lemma extract_email:
  "email_f (extract_info_from_message m) =
     (case re_search False email_pattern m of None \<Rightarrow> None | Some (whole, g1) \<Rightarrow> Some whole)"
  by (simp add: extract_info_from_message_def Let_def name_loop_others platform_loop_others
      empty_lead_def split: option.splits prod.splits)




lemma name_loop_no_match:
  "\<forall>pat\<in>set pats. re_search True pat m = None \<Longrightarrow> name_loop pats m ex = ex"
  by (induction pats m ex rule: name_loop.induct) simp_all



lemma name_loop_name_cong:
  "name_f ex = name_f ex' \<Longrightarrow> name_f (name_loop pats m ex) = name_f (name_loop pats m ex')"
proof (induction pats)
  case Nil
  then show ?case by simp
next
  case (Cons pat pats)
  note ih = Cons.IH [OF Cons.prems]
  show ?case
  proof (cases "re_search True pat m")
    case None
    with ih show ?thesis by simp
  next
    case (Some x)
    obtain w g where x: "x = (w, g)" by (cases x)
    show ?thesis
      using ih by (simp add: Some x Let_def)
  qed
qed

lemma extract_name:
  "name_f (extract_info_from_message m) = name_f (name_loop name_patterns m empty_lead)"
proof -
  have "name_f (platform_loop platforms (py_lower m) ex) = name_f empty_lead"
    if "name_f ex = None" for ex
    using that by (simp add: platform_loop_others empty_lead_def)
  then show ?thesis
    unfolding extract_info_from_message_def Let_def
    by (cases "re_search False email_pattern m")
       (auto intro!: name_loop_name_cong simp: empty_lead_def platform_loop_others)
qed


lemma email_only_chars:
  assumes "email_f (extract_info_from_message m) = Some m"
  shows "\<forall>c\<in>set m. \<not> sep_chr c" and "CHR ''@'' \<in> set m"
proof -
  from assms obtain g where "re_search False email_pattern m = Some (m, g)"
    by (auto simp: extract_email split: option.splits)
  then have "search_from False email_pattern None m = Some (m, g)"
    by (simp add: re_search_def)
  then have "first_match False email_pattern None m = Some (m, g)"
    by (rule search_from_whole)
  from first_match_Some [OF this] obtain p' s' where
    mt: "(p', s', g) \<in> set (rmatch False email_pattern (None, m, None))" and "m = m @ s'"
    by blast
  then have s': "s' = []" by simp
  from rmatch_consumes [OF mt] s' have "\<forall>c\<in>set m. rx_chars False email_pattern c"
    by auto
  then show "\<forall>c\<in>set m. \<not> sep_chr c"
    using email_pattern_chars by blast
  from rmatch_needs [OF email_pattern_needs_at mt] s' show "CHR ''@'' \<in> set m"
    by auto
qed

lemma no_sep_no_search:
  assumes "\<forall>c\<in>set m. \<not> sep_chr c" and "rx_needs True sep_chr pat"
  shows "re_search True pat m = None"
proof (cases "re_search True pat m")
  case None
  then show ?thesis .
next
  case (Some x)
  obtain w g where "x = (w, g)" by (cases x)
  with Some have "search_from True pat None m = Some (w, g)"
    by (simp add: re_search_def)
  from search_from_needs [OF this assms(2)] assms(1) show ?thesis by blast
qed

lemma rmatch_Seq_mem:
  "(x \<in> set (rmatch ic (Seq a b) st)) = (\<exists>y\<in>set (rmatch ic a st). x \<in> set (rmatch ic b y))"
  by simp

lemma name_patterns_need_sep':
  "rx_needs True sep_chr (name_patterns ! Suc 0)"
  using name_patterns_need_sep(2) by simp

lemma start_pattern_no_search:
  assumes nosep: "\<forall>c\<in>set m. \<not> sep_chr c" and at: "CHR ''@'' \<in> set m"
  shows "re_search True (Seq Bol (Seq (Grp name_body) (Alt (Cls [Space]) Eol))) m = None"
proof (cases "re_search True (Seq Bol (Seq (Grp name_body) (Alt (Cls [Space]) Eol))) m")
  case None
  then show ?thesis .
next
  case (Some x)
  obtain w g where "x = (w, g)" by (cases x)
  with Some have
    "search_from True (Seq Bol (Seq (Grp name_body) (Alt (Cls [Space]) Eol))) None m = Some (w, g)"
    by (simp add: re_search_def)
  then have
    "first_match True (Seq Bol (Seq (Grp name_body) (Alt (Cls [Space]) Eol))) None m = Some (w, g)"
    by (rule search_bol_start)
  from first_match_Some [OF this] obtain p' s' where
    "(p', s', g) \<in> set (rmatch True (Seq Bol (Seq (Grp name_body) (Alt (Cls [Space]) Eol))) (None, m, None))"
    by blast
  then have "(p', s', g) \<in> set (rmatch True (Seq (Grp name_body) (Alt (Cls [Space]) Eol)) (None, m, None))"
    by (simp add: rmatch_Seq_mem [of _ _ Bol])
  then obtain y where
    y: "y \<in> set (rmatch True (Grp name_body) (None, m, None))"
    and t: "(p', s', g) \<in> set (rmatch True (Alt (Cls [Space]) Eol) y)"
    unfolding rmatch_Seq_mem by blast
  obtain p1 s1 g1 where yy: "y = (p1, s1, g1)" by (cases y)
  from y yy have body: "(p1, s1, g1) \<in> set (rmatch True (Grp name_body) (None, m, None))"
    by simp
  from t yy have tail: "(p', s', g) \<in> set (rmatch True (Cls [Space]) (p1, s1, g1))
               \<or> (p', s', g) \<in> set (rmatch True Eol (p1, s1, g1))"
    by (simp only: rmatch.simps set_append Un_iff)
  from rmatch_consumes [OF body] obtain u where
    u: "m = u @ s1" "\<forall>c\<in>set u. rx_chars True (Grp name_body) c" by blast
  from u(2) name_body_not_at have "CHR ''@'' \<notin> set u" by blast
  with at u(1) have at1: "CHR ''@'' \<in> set s1" by auto
  from tail show ?thesis
  proof
    assume "(p', s', g) \<in> set (rmatch True (Cls [Space]) (p1, s1, g1))"
    then obtain c where "s1 = c # s'" "cls_ok True [Space] c"
      by (auto split: list.splits if_splits)
    then have "c \<in> set m" "sep_chr c"
      using u(1) cls_space_sep by auto
    with nosep show ?thesis by blast
  next
    assume "(p', s', g) \<in> set (rmatch True Eol (p1, s1, g1))"
    then have "s1 = [] \<or> s1 = [CHR 0x0A]"
      by (auto split: if_splits)
    with at1 show ?thesis by auto
  qed
qed

lemma name_patterns_nth:
  "name_patterns = [name_patterns ! 0, name_patterns ! 1,
                    Seq Bol (Seq (Grp name_body) (Alt (Cls [Space]) Eol)), name_patterns ! 3]"
  by (simp add: name_patterns_def)

lemma email_only_no_name:
  assumes "email_f (extract_info_from_message m) = Some m"
  shows "name_f (extract_info_from_message m) = None"
proof -
  note c = email_only_chars [OF assms]
  have "\<forall>pat\<in>set name_patterns. re_search True pat m = None"
    by (subst name_patterns_nth)
       (simp add: no_sep_no_search [OF c(1)] name_patterns_need_sep name_patterns_need_sep'
          start_pattern_no_search [OF c(1) c(2)])
  then have "name_loop name_patterns m empty_lead = empty_lead"
    by (rule name_loop_no_match)
  then show ?thesis
    by (simp add: extract_name empty_lead_def)
qed

lemma find_platform_None:
  "((case find (\<lambda>(k, v). sublist k ml) ps of None \<Rightarrow> None | Some (k, v) \<Rightarrow> Some v) \<noteq> None)
   = (\<exists>key\<in>set (map fst ps). sublist key ml)"
  by (induction ps) auto

text \<open>
  Claim C8, amended. For a message that is nothing but an email address, that is one
  whose extracted email is the whole message, the extractor returns no name, and it
  returns a platform exactly when one of the platform keys is a substring of the
  lowercased message.
\<close>

theorem email_only_message_extraction:
  assumes "email_f (extract_info_from_message m) = Some m"
  shows "name_f (extract_info_from_message m) = None
       \<and> (platform_f (extract_info_from_message m) \<noteq> None)
           = (\<exists>key\<in>set (map fst platforms). sublist key (py_lower m))"
  using email_only_no_name [OF assms]
  by (simp only: extract_platform find_platform_None simp_thms)

lemma extract_jane:
  "extract_info_from_message ''jane@roe.org'' =
     \<lparr>name_f = None, email_f = Some ''jane@roe.org'', platform_f = None\<rparr>"
  by code_simp

theorem email_only_message_extraction_witness:
  "email_f (extract_info_from_message ''jane@roe.org'') = Some ''jane@roe.org''
   \<and> name_f (extract_info_from_message ''jane@roe.org'') = None
   \<and> platform_f (extract_info_from_message ''jane@roe.org'') = None"
proof -
  have h: "email_f (extract_info_from_message ''jane@roe.org'') = Some ''jane@roe.org''"
    by (simp add: extract_jane)
  from email_only_message_extraction [OF h]
  have "name_f (extract_info_from_message ''jane@roe.org'') = None" by blast
  with h show ?thesis by (simp add: extract_jane)
qed

text \<open>
  Claim C8 as stated fails: the message \<open>john.doe@example.com\<close> is nothing but an email
  address, and the extractor returns the platform \<open>Twitter\<close> for it, since the key \<open>x\<close>
  occurs in \<open>example\<close>.
\<close>

theorem email_only_message_platform_counterexample:
  "email_f (extract_info_from_message ''john.doe@example.com'') = Some ''john.doe@example.com''
   \<and> platform_f (extract_info_from_message ''john.doe@example.com'') = Some ''Twitter''"
  by (simp add: extract_example)


section \<open>No turn stores the empty string\<close>



















end
